theory Spec2Isabelle
  imports Main "HOL-Library.Multiset"
begin

section \<open>Data model of \<^verbatim>\<open>src/App.tsx\<close>\<close>

text \<open>
  The four voice parts, the member record and the grid of the choir stage planner.
  A grid cell of type \<^verbatim>\<open>Member | null\<close> is a \<open>slot\<close>. JavaScript arrays also yield
  \<^verbatim>\<open>undefined\<close> when read outside their bounds and are extended when written outside
  their bounds, so \<open>Undefined\<close> is a third slot value; an array hole reads as
  \<^verbatim>\<open>undefined\<close> and is modelled by the same value.

  Arrays are HOL lists. Memory and the engine's ceiling on the length of an array are
  outside the model. The engine's limit on the number of arguments of one call is inside
  it, as the parameter \<open>maxArguments\<close>: a call that spreads a longer array throws a
  \<^verbatim>\<open>RangeError\<close>. A string is a list of code units, each \<open>char\<close> standing for the code
  unit with the same number.
\<close>

datatype Part = Soprano | Alto | Tenor | Bass

record Member =
  id_m :: string
  name :: string
  part :: Part

datatype slot = Filled Member | Null | Undefined

type_synonym grid = "slot list list"

datatype LayoutMode = Auto | Condition1 | Condition2

datatype error = TypeError | RangeError

record AppState =
  layoutMode :: LayoutMode
  counts :: "Part \<Rightarrow> string"
  rowCount :: int
  rows :: grid

definition initialState :: AppState where
  "initialState =
     \<lparr>layoutMode = Auto,
      counts = (\<lambda>p. case p of Soprano \<Rightarrow> ''9'' | Alto \<Rightarrow> ''10'' | Tenor \<Rightarrow> ''5'' | Bass \<Rightarrow> ''5''),
      rowCount = 3,
      rows = []\<rparr>"

section \<open>Library functions the component calls\<close>

subsection \<open>\<^verbatim>\<open>parseInt\<close> with no radix argument\<close>

definition isWhiteSpace :: "char \<Rightarrow> bool" where
  "isWhiteSpace c = (of_char c \<in> {9, 10, 11, 12, 13, 32, 160 :: nat})"

definition digit_of :: "char \<Rightarrow> nat option" where
  "digit_of c =
     (let n = of_char c :: nat in
      if 48 \<le> n \<and> n \<le> 57 then Some (n - 48)
      else if 97 \<le> n \<and> n \<le> 122 then Some (n - 87)
      else if 65 \<le> n \<and> n \<le> 90 then Some (n - 55)
      else None)"

definition radix_digit :: "nat \<Rightarrow> char \<Rightarrow> nat option" where
  "radix_digit R c =
     (case digit_of c of None \<Rightarrow> None | Some d \<Rightarrow> if d < R then Some d else None)"

definition is_radix_digit :: "nat \<Rightarrow> char \<Rightarrow> bool" where
  "is_radix_digit R c = (radix_digit R c \<noteq> None)"

definition radix_value :: "nat \<Rightarrow> string \<Rightarrow> nat" where
  "radix_value R Z =
     foldl (\<lambda>a c. R * a + (case radix_digit R c of None \<Rightarrow> 0 | Some d \<Rightarrow> d)) 0 Z"

text \<open>
  \<open>None\<close> is \<^verbatim>\<open>NaN\<close>. The steps are those of the language definition: skip leading white
  space, read a sign, switch to radix 16 after \<^verbatim>\<open>0x\<close> or \<^verbatim>\<open>0X\<close>, keep the longest prefix
  of digits, and answer \<^verbatim>\<open>NaN\<close> when that prefix is empty. The result is kept as an exact
  integer.
\<close>

definition parseInt :: "string \<Rightarrow> int option" where
  "parseInt inputString =
     (let S = dropWhile isWhiteSpace inputString;
          sign = (if S \<noteq> [] \<and> hd S = CHR ''-'' then - 1 else 1 :: int);
          S1 = (if S \<noteq> [] \<and> (hd S = CHR ''+'' \<or> hd S = CHR ''-'') then tl S else S);
          hex = (take 2 S1 = ''0x'' \<or> take 2 S1 = ''0X'');
          R = (if hex then 16 else 10 :: nat);
          S2 = (if hex then drop 2 S1 else S1);
          Z = takeWhile (is_radix_digit R) S2
      in if Z = [] then None else Some (sign * int (radix_value R Z)))"

text \<open>\<^verbatim>\<open>x || d\<close> on a number: \<^verbatim>\<open>NaN\<close> and zero are falsy.\<close>

definition orElse :: "int option \<Rightarrow> int \<Rightarrow> int" where
  "orElse x d = (case x of None \<Rightarrow> d | Some n \<Rightarrow> if n = 0 then d else n)"

subsection \<open>\<^verbatim>\<open>Array.from({ length }, f)\<close>\<close>

text \<open>The length of an array-like is clamped from below at zero.\<close>

definition arrayFrom :: "int \<Rightarrow> (nat \<Rightarrow> 'a) \<Rightarrow> 'a list" where
  "arrayFrom len f = map f [0..<nat len]"

subsection \<open>A number inside a template literal\<close>

fun numberToString :: "nat \<Rightarrow> string" where
  "numberToString n =
     (if n < 10 then [char_of (48 + n)]
      else numberToString (n div 10) @ [char_of (48 + n mod 10)])"

declare numberToString.simps [simp del]

subsection \<open>Reading and writing an array element\<close>

definition arrayGet :: "slot list \<Rightarrow> nat \<Rightarrow> slot" where
  "arrayGet xs i = (if i < length xs then xs ! i else Undefined)"

definition arraySet :: "slot list \<Rightarrow> nat \<Rightarrow> slot \<Rightarrow> slot list" where
  "arraySet xs i v =
     (if i < length xs then xs[i := v]
      else xs @ replicate (i - length xs) Undefined @ [v])"

text \<open>
  \<^verbatim>\<open>Math.max(...xs)\<close>: every element of \<open>xs\<close> is one argument of the call, and the engine
  throws a \<^verbatim>\<open>RangeError\<close> when there are more than it can pass. \<open>None\<close> is \<^verbatim>\<open>-Infinity\<close>, the
  answer for no arguments.
\<close>

definition Math_max :: "nat \<Rightarrow> nat list \<Rightarrow> error + nat option" where
  "Math_max maxArguments xs =
     (if maxArguments < length xs then Inl RangeError
      else Inr (if xs = [] then None else Some (Max (set xs))))"

section \<open>\<^verbatim>\<open>generateMembers\<close>\<close>

subsection \<open>The four rosters\<close>

text \<open>
  \<^verbatim>\<open>uuidv4\<close> is external; \<open>uuidv4 k\<close> is the identifier returned by its \<open>k\<close>-th call.
  The second argument of \<open>buildPart\<close> is the number of calls made before.
\<close>

definition buildPart :: "(nat \<Rightarrow> string) \<Rightarrow> nat \<Rightarrow> string \<Rightarrow> char \<Rightarrow> Part \<Rightarrow> Member list" where
  "buildPart uuidv4 k countText initial p =
     arrayFrom (orElse (parseInt countText) 0)
       (\<lambda>i. \<lparr>id_m = uuidv4 (k + i), name = initial # numberToString i, part = p\<rparr>)"

definition soprano :: "(nat \<Rightarrow> string) \<Rightarrow> AppState \<Rightarrow> Member list" where
  "soprano uuidv4 st = buildPart uuidv4 0 (counts st Soprano) CHR ''S'' Soprano"

definition alto :: "(nat \<Rightarrow> string) \<Rightarrow> AppState \<Rightarrow> Member list" where
  "alto uuidv4 st =
     buildPart uuidv4 (length (soprano uuidv4 st)) (counts st Alto) CHR ''A'' Alto"

definition tenor :: "(nat \<Rightarrow> string) \<Rightarrow> AppState \<Rightarrow> Member list" where
  "tenor uuidv4 st =
     buildPart uuidv4 (length (soprano uuidv4 st) + length (alto uuidv4 st))
       (counts st Tenor) CHR ''T'' Tenor"

definition bass :: "(nat \<Rightarrow> string) \<Rightarrow> AppState \<Rightarrow> Member list" where
  "bass uuidv4 st =
     buildPart uuidv4
       (length (soprano uuidv4 st) + length (alto uuidv4 st) + length (tenor uuidv4 st))
       (counts st Bass) CHR ''B'' Bass"

subsection \<open>\<^verbatim>\<open>flatInsert\<close>\<close>

text \<open>
  The \<^verbatim>\<open>for\<close> loop with its counter \<open>i\<close>. \<^verbatim>\<open>newRows[row]\<close> is \<^verbatim>\<open>undefined\<close> when there is
  no such row (also when \<open>targetRows\<close> is empty, where \<^verbatim>\<open>i % 0\<close> is \<^verbatim>\<open>NaN\<close>), and calling
  \<^verbatim>\<open>push\<close> on it throws a \<^verbatim>\<open>TypeError\<close>.
\<close>

fun flatInsert_loop :: "Member list \<Rightarrow> nat list \<Rightarrow> nat \<Rightarrow> grid \<Rightarrow> error + grid" where
  "flatInsert_loop [] targetRows i newRows = Inr newRows"
| "flatInsert_loop (m # members) targetRows i newRows =
     (if targetRows = [] then Inl TypeError
      else
        let row = targetRows ! (i mod length targetRows) in
        if row < length newRows
        then flatInsert_loop members targetRows (i + 1)
               (newRows[row := newRows ! row @ [Filled m]])
        else Inl TypeError)"

definition flatInsert :: "Member list \<Rightarrow> nat list \<Rightarrow> grid \<Rightarrow> error + grid" where
  "flatInsert members targetRows newRows = flatInsert_loop members targetRows 0 newRows"

subsection \<open>Distribution: the rows before balancing\<close>

definition distribute :: "(nat \<Rightarrow> string) \<Rightarrow> AppState \<Rightarrow> error + grid" where
  "distribute uuidv4 st =
     (let newRows = arrayFrom (rowCount st) (\<lambda>_. []) in
      if layoutMode st = Condition1 then
        (case flatInsert (soprano uuidv4 st @ alto uuidv4 st) [0, 1] newRows of
           Inl e \<Rightarrow> Inl e
         | Inr newRows1 \<Rightarrow> flatInsert (tenor uuidv4 st @ bass uuidv4 st) [2] newRows1)
      else if layoutMode st = Condition2 then
        (case flatInsert (soprano uuidv4 st @ alto uuidv4 st) [0, 1, 2] newRows of
           Inl e \<Rightarrow> Inl e
         | Inr newRows1 \<Rightarrow> flatInsert (tenor uuidv4 st @ bass uuidv4 st) [3] newRows1)
      else
        flatInsert (soprano uuidv4 st @ alto uuidv4 st @ tenor uuidv4 st @ bass uuidv4 st)
          (arrayFrom (rowCount st) (\<lambda>i. i)) newRows)"

subsection \<open>Balancing\<close>

definition balanceRow :: "nat \<Rightarrow> slot list \<Rightarrow> slot list" where
  "balanceRow maxLength row =
     (let trimmed = take maxLength row;
          diff = maxLength - length trimmed;
          padLeft = diff div 2;
          padRight = diff - padLeft
      in replicate padLeft Null @ trimmed @ replicate padRight Null)"

text \<open>
  \<^verbatim>\<open>maxLength\<close> is \<^verbatim>\<open>-Infinity\<close> only when there is no row, and then the \<^verbatim>\<open>map\<close> runs over
  nothing.
\<close>

definition balancedRows :: "nat \<Rightarrow> grid \<Rightarrow> error + grid" where
  "balancedRows maxArguments newRows =
     (case Math_max maxArguments (map length newRows) of
        Inl e \<Rightarrow> Inl e
      | Inr None \<Rightarrow> Inr []
      | Inr (Some maxLength) \<Rightarrow> Inr (map (balanceRow maxLength) newRows))"

text \<open>An exception leaves \<^verbatim>\<open>setRows\<close> uncalled: no new state.\<close>

definition generateMembers ::
    "nat \<Rightarrow> (nat \<Rightarrow> string) \<Rightarrow> AppState \<Rightarrow> error + AppState" where
  "generateMembers maxArguments uuidv4 st =
     (case distribute uuidv4 st of
        Inl e \<Rightarrow> Inl e
      | Inr newRows \<Rightarrow>
          (case balancedRows maxArguments newRows of
             Inl e \<Rightarrow> Inl e
           | Inr balanced \<Rightarrow> Inr (st\<lparr>rows := balanced\<rparr>)))"

section \<open>\<^verbatim>\<open>moveMember\<close>\<close>

text \<open>
  The updater passed to \<^verbatim>\<open>setRows\<close>, on a copy of the rows. Indexing \<^verbatim>\<open>newRows[r]\<close> with
  no such row gives \<^verbatim>\<open>undefined\<close>, and reading an element of it throws a \<^verbatim>\<open>TypeError\<close>; a
  slot index outside an existing row reads \<^verbatim>\<open>undefined\<close> and, on assignment, extends the
  row. The four indices are natural numbers, as the indices of rendered cells are.
  \<open>Inl\<close> is the exception leaving the updater, which then returns no rows; what the
  framework does with a component whose updater threw is outside the model.
\<close>

definition moveMember :: "nat \<Rightarrow> nat \<Rightarrow> nat \<Rightarrow> nat \<Rightarrow> AppState \<Rightarrow> error + AppState" where
  "moveMember fromRow fromIndex toRow toIndex st =
     (let newRows = rows st in
      if \<not> fromRow < length newRows then Inl TypeError
      else
        let fromMember = arrayGet (newRows ! fromRow) fromIndex in
        if \<not> toRow < length newRows then Inl TypeError
        else
          let toMember = arrayGet (newRows ! toRow) toIndex;
              newRows1 = newRows[fromRow := arraySet (newRows ! fromRow) fromIndex toMember];
              newRows2 = newRows1[toRow := arraySet (newRows1 ! toRow) toIndex fromMember]
          in Inr (st\<lparr>rows := newRows2\<rparr>))"

section \<open>The row-count input\<close>


section \<open>Vocabulary of the properties\<close>

text \<open>A slot address \<open>(r, i)\<close> is valid when row \<open>r\<close> exists and has a position \<open>i\<close>.\<close>

definition validAddress :: "grid \<Rightarrow> nat \<Rightarrow> nat \<Rightarrow> bool" where
  "validAddress g r i = (r < length g \<and> i < length (g ! r))"

text \<open>The grid after the two assignments of \<open>moveMember\<close>, when both addresses are valid.\<close>

definition exchanged :: "grid \<Rightarrow> nat \<Rightarrow> nat \<Rightarrow> nat \<Rightarrow> nat \<Rightarrow> grid" where
  "exchanged g fr fi tr ti =
     (let g1 = g[fr := (g ! fr)[fi := g ! tr ! ti]]
      in g1[tr := (g1 ! tr)[ti := g ! fr ! fi]])"

text \<open>The members of the scenario \<open>[[S0, A0], [S1, A1]]\<close>.\<close>

definition S0 :: slot where
  "S0 = Filled \<lparr>id_m = ''id-0'', name = ''S0'', part = Soprano\<rparr>"

definition S1 :: slot where
  "S1 = Filled \<lparr>id_m = ''id-1'', name = ''S1'', part = Soprano\<rparr>"

definition A0 :: slot where
  "A0 = Filled \<lparr>id_m = ''id-2'', name = ''A0'', part = Alto\<rparr>"

definition A1 :: slot where
  "A1 = Filled \<lparr>id_m = ''id-3'', name = ''A1'', part = Alto\<rparr>"

text \<open>
  The calls of \<open>flatInsert\<close> that the chosen branch of \<open>generateMembers\<close> makes: the
  member sequence and the target rows of each, in the order of the calls.
\<close>

definition sourceGroups :: "(nat \<Rightarrow> string) \<Rightarrow> AppState \<Rightarrow> Member list list" where
  "sourceGroups uuidv4 st =
     (if layoutMode st = Condition1 then
        [soprano uuidv4 st @ alto uuidv4 st, tenor uuidv4 st @ bass uuidv4 st]
      else if layoutMode st = Condition2 then
        [soprano uuidv4 st @ alto uuidv4 st, tenor uuidv4 st @ bass uuidv4 st]
      else [soprano uuidv4 st @ alto uuidv4 st @ tenor uuidv4 st @ bass uuidv4 st])"

definition targetRowGroups :: "AppState \<Rightarrow> nat list list" where
  "targetRowGroups st =
     (if layoutMode st = Condition1 then [[0, 1], [2]]
      else if layoutMode st = Condition2 then [[0, 1, 2], [3]]
      else [arrayFrom (rowCount st) (\<lambda>i. i)])"

definition insertCalls :: "(nat \<Rightarrow> string) \<Rightarrow> AppState \<Rightarrow> (Member list \<times> nat list) list" where
  "insertCalls uuidv4 st = zip (sourceGroups uuidv4 st) (targetRowGroups st)"

text \<open>
  The row count is at least 1 and every target row of the policy is a row of the grid.
\<close>

definition targetRowsExist :: "AppState \<Rightarrow> bool" where
  "targetRowsExist st =
     (1 \<le> rowCount st
      \<and> list_all (\<lambda>targetRows. list_all (\<lambda>row. int row < rowCount st) targetRows)
          (targetRowGroups st))"

text \<open>
  The round-robin rule in the words of the specification: of a group of \<open>k\<close> rows, row
  number \<open>j\<close> receives the members at the positions \<open>p\<close> with \<open>p mod k = j\<close>, in the order
  of the source sequence.
\<close>

definition roundRobinRow :: "'a list \<Rightarrow> nat \<Rightarrow> nat \<Rightarrow> 'a list" where
  "roundRobinRow xs k j = map (\<lambda>p. xs ! p) (filter (\<lambda>p. p mod k = j) [0..<length xs])"

text \<open>
  What a run of the loop that starts with counter \<open>i\<close> sends to row \<open>r\<close>: the members whose
  turn selects \<open>r\<close>, in order.
\<close>

definition sentTo :: "nat list \<Rightarrow> nat \<Rightarrow> nat \<Rightarrow> 'a list \<Rightarrow> 'a list" where
  "sentTo ts i r xs =
     map (\<lambda>p. xs ! p) (filter (\<lambda>p. ts ! ((i + p) mod length ts) = r) [0..<length xs])"

text \<open>The whole roster of one build, and the roster of one part.\<close>

definition roster :: "(nat \<Rightarrow> string) \<Rightarrow> AppState \<Rightarrow> Member list" where
  "roster uuidv4 st =
     soprano uuidv4 st @ alto uuidv4 st @ tenor uuidv4 st @ bass uuidv4 st"

definition rosterOf :: "(nat \<Rightarrow> string) \<Rightarrow> AppState \<Rightarrow> Part \<Rightarrow> Member list" where
  "rosterOf uuidv4 st p =
     (case p of
        Soprano \<Rightarrow> soprano uuidv4 st
      | Alto \<Rightarrow> alto uuidv4 st
      | Tenor \<Rightarrow> tenor uuidv4 st
      | Bass \<Rightarrow> bass uuidv4 st)"

definition initialOf :: "Part \<Rightarrow> char" where
  "initialOf p =
     (case p of Soprano \<Rightarrow> CHR ''S'' | Alto \<Rightarrow> CHR ''A'' | Tenor \<Rightarrow> CHR ''T'' | Bass \<Rightarrow> CHR ''B'')"

text \<open>The contents of the non-empty slots of a grid, row by row.\<close>

definition nonEmptySlots :: "grid \<Rightarrow> slot list" where
  "nonEmptySlots g = filter (\<lambda>s. s \<noteq> Null) (concat g)"



text \<open>An identifier generator and an argument limit for the concrete runs below.\<close>

definition uuidSeq :: "nat \<Rightarrow> string" where
  "uuidSeq k = ''id-'' @ numberToString k"

definition argLimit :: nat where
  "argLimit = 500000"

text \<open>
  The configurations of the concrete scenarios: two sopranos and two altos on two rows,
  and one soprano alone on two rows.
\<close>

definition countsOf :: "string \<Rightarrow> string \<Rightarrow> string \<Rightarrow> string \<Rightarrow> Part \<Rightarrow> string" where
  "countsOf s a t b p = (case p of Soprano \<Rightarrow> s | Alto \<Rightarrow> a | Tenor \<Rightarrow> t | Bass \<Rightarrow> b)"

definition twoByTwo :: AppState where
  "twoByTwo = initialState\<lparr>counts := countsOf ''2'' ''2'' ''0'' ''0'', rowCount := 2\<rparr>"

definition oneSoprano :: AppState where
  "oneSoprano = initialState\<lparr>counts := countsOf ''1'' ''0'' ''0'' ''0'', rowCount := 2\<rparr>"

section \<open>Swap\<close>

lemma length_nth_update_row:
  "r < length g \<Longrightarrow> length (g[a := (g ! a)[b := v]] ! r) = length (g ! r)"
  by (cases "r = a") simp_all

lemma moveMember_valid:
  assumes "validAddress (rows st) fr fi" and "validAddress (rows st) tr ti"
  shows "moveMember fr fi tr ti st = Inr (st\<lparr>rows := exchanged (rows st) fr fi tr ti\<rparr>)"
  using assms
  by (simp add: moveMember_def validAddress_def exchanged_def Let_def arrayGet_def arraySet_def
      length_nth_update_row)

lemma length_exchanged: "length (exchanged g fr fi tr ti) = length g"
  by (simp add: exchanged_def Let_def)

lemma length_row_exchanged:
  "r < length g \<Longrightarrow> length (exchanged g fr fi tr ti ! r) = length (g ! r)"
  by (cases "r = tr") (simp_all add: exchanged_def Let_def length_nth_update_row)

lemma map_length_exchanged: "map length (exchanged g fr fi tr ti) = map length g"
  by (rule nth_equalityI) (simp_all add: length_exchanged length_row_exchanged)

lemma exchanged_nth:
  assumes "validAddress g fr fi" "validAddress g tr ti" "validAddress g r i"
  shows "exchanged g fr fi tr ti ! r ! i =
           (if (r, i) = (tr, ti) then g ! fr ! fi
            else if (r, i) = (fr, fi) then g ! tr ! ti
            else g ! r ! i)"
  using assms
  by (auto simp add: exchanged_def Let_def validAddress_def nth_list_update)

lemma exchanged_self:
  assumes "validAddress g r i"
  shows "exchanged g r i r i = g"
  using assms by (simp add: exchanged_def Let_def validAddress_def)

lemma validAddress_exchanged:
  "validAddress (exchanged g fr fi tr ti) r i = validAddress g r i"
  by (auto simp add: validAddress_def length_exchanged length_row_exchanged)

lemma exchanged_twice:
  assumes "validAddress g fr fi" "validAddress g tr ti"
  shows "exchanged (exchanged g fr fi tr ti) fr fi tr ti = g"
proof (rule nth_equalityI)
  show "length (exchanged (exchanged g fr fi tr ti) fr fi tr ti) = length g"
    by (simp add: length_exchanged)
next
  fix r assume "r < length (exchanged (exchanged g fr fi tr ti) fr fi tr ti)"
  then have r: "r < length g" by (simp add: length_exchanged)
  let ?g' = "exchanged g fr fi tr ti"
  have v: "validAddress ?g' fr fi" "validAddress ?g' tr ti"
    using assms by (simp_all add: validAddress_exchanged)
  show "exchanged ?g' fr fi tr ti ! r = g ! r"
  proof (rule nth_equalityI)
    show "length (exchanged ?g' fr fi tr ti ! r) = length (g ! r)"
      using r by (simp add: length_exchanged length_row_exchanged)
  next
    fix i assume "i < length (exchanged ?g' fr fi tr ti ! r)"
    then have "i < length (g ! r)"
      using r by (simp add: length_exchanged length_row_exchanged)
    then have a: "validAddress g r i" using r by (simp add: validAddress_def)
    then have a': "validAddress ?g' r i" by (simp add: validAddress_exchanged)
    show "exchanged ?g' fr fi tr ti ! r ! i = g ! r ! i"
      using assms a by (auto simp add: exchanged_nth [OF v a'] exchanged_nth)
  qed
qed

text \<open>
  Claim C4. For two valid slot addresses, \<open>moveMember\<close> succeeds and exchanges the
  contents of the two addressed slots, whatever they hold; every other slot, the
  length of every row, the number of rows and the configuration are as before.
\<close>

theorem moveMember_exchanges_slots:
  assumes "validAddress (rows st) fromRow fromIndex"
    and "validAddress (rows st) toRow toIndex"
  shows "\<exists>st'. moveMember fromRow fromIndex toRow toIndex st = Inr st'
           \<and> rows st' ! toRow ! toIndex = rows st ! fromRow ! fromIndex
           \<and> rows st' ! fromRow ! fromIndex = rows st ! toRow ! toIndex
           \<and> (\<forall>r i. validAddress (rows st) r i
                  \<and> (r, i) \<noteq> (fromRow, fromIndex) \<and> (r, i) \<noteq> (toRow, toIndex)
                \<longrightarrow> rows st' ! r ! i = rows st ! r ! i)
           \<and> map length (rows st') = map length (rows st)
           \<and> layoutMode st' = layoutMode st \<and> counts st' = counts st
           \<and> rowCount st' = rowCount st"
proof -
  let ?g = "rows st"
  let ?st' = "st\<lparr>rows := exchanged ?g fromRow fromIndex toRow toIndex\<rparr>"
  have run: "moveMember fromRow fromIndex toRow toIndex st = Inr ?st'"
    using assms by (rule moveMember_valid)
  have to: "rows ?st' ! toRow ! toIndex = ?g ! fromRow ! fromIndex"
    using assms by (simp add: exchanged_nth)
  have "from": "rows ?st' ! fromRow ! fromIndex = ?g ! toRow ! toIndex"
    using assms by (auto simp add: exchanged_nth)
  have frame: "\<forall>r i. validAddress ?g r i
        \<and> (r, i) \<noteq> (fromRow, fromIndex) \<and> (r, i) \<noteq> (toRow, toIndex)
      \<longrightarrow> rows ?st' ! r ! i = ?g ! r ! i"
    using assms by (auto simp add: exchanged_nth)
  have shape: "map length (rows ?st') = map length ?g"
    by (simp add: map_length_exchanged)
  show ?thesis
    using run to "from" frame shape by simp
qed

theorem moveMember_exchanges_slots_witness:
  "validAddress [[S0, A0], [S1, A1]] 0 0 \<and> validAddress [[S0, A0], [S1, A1]] 1 0
   \<and> moveMember 0 0 1 0 (initialState\<lparr>rows := [[S0, A0], [S1, A1]]\<rparr>)
       = Inr (initialState\<lparr>rows := [[S1, A0], [S0, A1]]\<rparr>)"
  using moveMember_exchanges_slots
    [of "initialState\<lparr>rows := [[S0, A0], [S1, A1]]\<rparr>" 0 0 1 0]
  by (simp add: validAddress_def moveMember_def arrayGet_def arraySet_def Let_def)

text \<open>
  Claim C7. For two valid addresses, distinct or not, a second \<open>moveMember\<close> with the same
  arguments restores the state the first one started from.
\<close>

theorem moveMember_involution:
  assumes "validAddress (rows st) fromRow fromIndex"
    and "validAddress (rows st) toRow toIndex"
  shows "\<exists>st'. moveMember fromRow fromIndex toRow toIndex st = Inr st'
           \<and> moveMember fromRow fromIndex toRow toIndex st' = Inr st"
proof -
  let ?g' = "exchanged (rows st) fromRow fromIndex toRow toIndex"
  let ?st' = "st\<lparr>rows := ?g'\<rparr>"
  have first: "moveMember fromRow fromIndex toRow toIndex st = Inr ?st'"
    using assms by (rule moveMember_valid)
  have "validAddress (rows ?st') fromRow fromIndex" "validAddress (rows ?st') toRow toIndex"
    using assms by (simp_all add: validAddress_exchanged)
  then have "moveMember fromRow fromIndex toRow toIndex ?st'
      = Inr (?st'\<lparr>rows := exchanged (rows ?st') fromRow fromIndex toRow toIndex\<rparr>)"
    by (rule moveMember_valid)
  also have "\<dots> = Inr st"
    using assms by (simp add: exchanged_twice)
  finally show ?thesis
    using first by blast
qed

theorem moveMember_involution_witness:
  "validAddress [[S0, A0], [S1, A1]] 0 0 \<and> validAddress [[S0, A0], [S1, A1]] 1 0
   \<and> moveMember 0 0 1 0 (initialState\<lparr>rows := [[S0, A0], [S1, A1]]\<rparr>)
       = Inr (initialState\<lparr>rows := [[S1, A0], [S0, A1]]\<rparr>)
   \<and> moveMember 0 0 1 0 (initialState\<lparr>rows := [[S1, A0], [S0, A1]]\<rparr>)
       = Inr (initialState\<lparr>rows := [[S0, A0], [S1, A1]]\<rparr>)"
  using moveMember_involution
    [of "initialState\<lparr>rows := [[S0, A0], [S1, A1]]\<rparr>" 0 0 1 0]
  by (simp add: validAddress_def moveMember_def arrayGet_def arraySet_def Let_def)

text \<open>
  Claim C8. \<open>moveMember\<close> with the same valid address twice returns the state it was
  given.
\<close>

theorem moveMember_same_address:
  assumes "validAddress (rows st) r i"
  shows "moveMember r i r i st = Inr st"
  using assms moveMember_valid [OF assms assms] by (simp add: exchanged_self)

theorem moveMember_same_address_witness:
  "validAddress [[S0, A0], [S1, A1]] 1 1
   \<and> moveMember 1 1 1 1 (initialState\<lparr>rows := [[S0, A0], [S1, A1]]\<rparr>)
       = Inr (initialState\<lparr>rows := [[S0, A0], [S1, A1]]\<rparr>)"
  using moveMember_same_address [of "initialState\<lparr>rows := [[S0, A0], [S1, A1]]\<rparr>" 1 1]
  by (simp add: validAddress_def)

text \<open>
  Claim C6, as the code has it. \<open>moveMember\<close> checks nothing itself. Its updater throws a
  \<^verbatim>\<open>TypeError\<close>, and so returns no rows, exactly when one of the two row indices names no
  row. A slot index outside an existing row is not rejected.
\<close>

theorem moveMember_fails_iff_row_missing:
  "(\<not> fromRow < length (rows st) \<or> \<not> toRow < length (rows st)
      \<longrightarrow> moveMember fromRow fromIndex toRow toIndex st = Inl TypeError)
   \<and> (fromRow < length (rows st) \<and> toRow < length (rows st)
      \<longrightarrow> (\<exists>st'. moveMember fromRow fromIndex toRow toIndex st = Inr st'))"
proof (intro conjI impI)
  assume "\<not> fromRow < length (rows st) \<or> \<not> toRow < length (rows st)"
  then show "moveMember fromRow fromIndex toRow toIndex st = Inl TypeError"
    by (auto simp add: moveMember_def Let_def)
next
  assume "fromRow < length (rows st) \<and> toRow < length (rows st)"
  then show "\<exists>st'. moveMember fromRow fromIndex toRow toIndex st = Inr st'"
    by (simp add: moveMember_def Let_def)
qed

theorem moveMember_fails_iff_row_missing_witness:
  "\<not> (2 :: nat) < length (rows (initialState\<lparr>rows := [[S0, A0], [S1, A1]]\<rparr>))
   \<and> moveMember 2 0 0 0 (initialState\<lparr>rows := [[S0, A0], [S1, A1]]\<rparr>) = Inl TypeError
   \<and> (0 :: nat) < length (rows (initialState\<lparr>rows := [[S0, A0], [S1, A1]]\<rparr>))
   \<and> (1 :: nat) < length (rows (initialState\<lparr>rows := [[S0, A0], [S1, A1]]\<rparr>))
   \<and> (\<exists>st'. moveMember 0 0 1 0 (initialState\<lparr>rows := [[S0, A0], [S1, A1]]\<rparr>) = Inr st')"
  using moveMember_fails_iff_row_missing
      [of 2 "initialState\<lparr>rows := [[S0, A0], [S1, A1]]\<rparr>" 0 0 0]
    moveMember_fails_iff_row_missing
      [of 0 "initialState\<lparr>rows := [[S0, A0], [S1, A1]]\<rparr>" 1 0 0]
  by simp

text \<open>
  The claim as the specification words it fails: slot index 5 does not exist in the
  one row \<open>[S0, A0]\<close>, yet no error is raised, the row grows to six slots and \<open>S0\<close>
  lands in the new last one.
\<close>

theorem moveMember_slot_index_unchecked:
  "\<not> validAddress [[S0, A0]] 0 5
   \<and> moveMember 0 5 0 0 (initialState\<lparr>rows := [[S0, A0]]\<rparr>)
       = Inr (initialState\<lparr>rows := [[Undefined, A0, Undefined, Undefined, Undefined, S0]]\<rparr>)"
  by (simp add: validAddress_def moveMember_def arrayGet_def arraySet_def Let_def
      numeral_eq_Suc)

section \<open>Distribution\<close>

lemma sentTo_Nil: "sentTo ts i r [] = []"
  by (simp add: sentTo_def)

lemma sentTo_Cons:
  "sentTo ts i r (x # xs) =
     (if ts ! (i mod length ts) = r then [x] else []) @ sentTo ts (Suc i) r xs"
  by (simp add: sentTo_def upt_conv_Cons map_Suc_upt [symmetric] filter_map o_def del: upt_Suc)

lemma flatInsert_loop_sentTo:
  assumes "ts \<noteq> []" and "\<forall>t \<in> set ts. t < length g"
  shows "flatInsert_loop ms ts i g =
           Inr (map (\<lambda>r. g ! r @ map Filled (sentTo ts i r ms)) [0..<length g])"
  using assms
proof (induction ms arbitrary: i g)
  case Nil
  then show ?case by (simp add: sentTo_Nil map_nth)
next
  case (Cons m ms)
  let ?row = "ts ! (i mod length ts)"
  let ?g1 = "g[?row := g ! ?row @ [Filled m]]"
  have row: "?row < length g"
    using Cons.prems by simp
  have "flatInsert_loop (m # ms) ts i g = flatInsert_loop ms ts (Suc i) ?g1"
    using Cons.prems row by (simp add: Let_def)
  also have "\<dots> = Inr (map (\<lambda>r. ?g1 ! r @ map Filled (sentTo ts (Suc i) r ms)) [0..<length ?g1])"
    using Cons.prems by (intro Cons.IH) simp_all
  also have "map (\<lambda>r. ?g1 ! r @ map Filled (sentTo ts (Suc i) r ms)) [0..<length ?g1]
      = map (\<lambda>r. g ! r @ map Filled (sentTo ts i r (m # ms))) [0..<length g]"
    by (auto simp add: sentTo_Cons nth_list_update)
  finally show ?case .
qed

lemma sentTo_distinct:
  assumes "distinct ts" and "j < length ts"
  shows "sentTo ts 0 (ts ! j) xs = roundRobinRow xs (length ts) j"
proof -
  have pos: "0 < length ts"
    using assms(2) by (cases ts) simp_all
  have "(ts ! (p mod length ts) = ts ! j) = (p mod length ts = j)" for p
    using assms pos nth_eq_iff_index_eq [of ts "p mod length ts" j] by simp
  then show ?thesis
    by (simp add: sentTo_def roundRobinRow_def)
qed

lemma sentTo_outside:
  assumes "ts \<noteq> []" and "r \<notin> set ts"
  shows "sentTo ts i r xs = []"
proof -
  have "\<And>p. ts ! ((i + p) mod length ts) \<noteq> r"
    using assms by (metis length_greater_0_conv mod_less_divisor nth_mem)
  then show ?thesis
    by (simp add: sentTo_def)
qed

lemma flatInsert_loop_result:
  assumes "flatInsert_loop ms ts i g = Inr g'"
  shows "g' = map (\<lambda>r. g ! r @ map Filled (sentTo ts i r ms)) [0..<length g]"
  using assms
proof (induction ms arbitrary: i g)
  case Nil
  then show ?case by (simp add: sentTo_Nil map_nth)
next
  case (Cons m ms)
  let ?row = "ts ! (i mod length ts)"
  let ?g1 = "g[?row := g ! ?row @ [Filled m]]"
  from Cons.prems have ok: "ts \<noteq> []" "?row < length g"
    by (auto simp add: Let_def split: if_splits)
  then have "flatInsert_loop ms ts (Suc i) ?g1 = Inr g'"
    using Cons.prems by (simp add: Let_def)
  then have "g' = map (\<lambda>r. ?g1 ! r @ map Filled (sentTo ts (Suc i) r ms)) [0..<length ?g1]"
    by (rule Cons.IH)
  also have "\<dots> = map (\<lambda>r. g ! r @ map Filled (sentTo ts i r (m # ms))) [0..<length g]"
    by (auto simp add: sentTo_Cons nth_list_update)
  finally show ?case .
qed


lemma arrayFrom_length [simp]: "length (arrayFrom n f) = nat n"
  by (simp add: arrayFrom_def)

lemma arrayFrom_nth [simp]: "i < nat n \<Longrightarrow> arrayFrom n f ! i = f i"
  by (simp add: arrayFrom_def)

lemma arrayFrom_id: "arrayFrom n (\<lambda>i. i) = [0..<nat n]"
  by (simp add: arrayFrom_def)

lemma flatInsert_sentTo:
  assumes "ts \<noteq> []" and "\<forall>t \<in> set ts. t < length g"
  shows "flatInsert ms ts g =
           Inr (map (\<lambda>r. g ! r @ map Filled (sentTo ts 0 r ms)) [0..<length g])"
  unfolding flatInsert_def using assms by (rule flatInsert_loop_sentTo)

lemma targetRowsExist_cases:
  "targetRowsExist st =
     (case layoutMode st of
        Auto \<Rightarrow> 1 \<le> rowCount st
      | Condition1 \<Rightarrow> 3 \<le> rowCount st
      | Condition2 \<Rightarrow> 4 \<le> rowCount st)"
  by (cases "layoutMode st")
     (auto simp add: targetRowsExist_def targetRowGroups_def arrayFrom_id list_all_iff)

text \<open>The rows after distribution, row by row.\<close>

lemma distribute_rows:
  assumes "targetRowsExist st"
  shows "distribute uuidv4 st =
           Inr (map (\<lambda>r. concat (map (\<lambda>(ms, ts). map Filled (sentTo ts 0 r ms))
                                   (insertCalls uuidv4 st)))
                  [0..<nat (rowCount st)])"
proof (cases "layoutMode st")
  case Auto
  then have R: "1 \<le> rowCount st"
    using assms by (simp add: targetRowsExist_cases)
  let ?ts = "arrayFrom (rowCount st) (\<lambda>i. i)"
  let ?g = "arrayFrom (rowCount st) (\<lambda>_. []) :: grid"
  have "?ts \<noteq> []" "\<forall>t \<in> set ?ts. t < length ?g"
    using R by (auto simp add: arrayFrom_id)
  then have "flatInsert (roster uuidv4 st) ?ts ?g =
      Inr (map (\<lambda>r. ?g ! r @ map Filled (sentTo ?ts 0 r (roster uuidv4 st))) [0..<length ?g])"
    by (rule flatInsert_sentTo)
  then show ?thesis
    using Auto
    by (simp add: distribute_def roster_def insertCalls_def sourceGroups_def targetRowGroups_def)
next
  case Condition1
  then have R: "3 \<le> rowCount st"
    using assms by (simp add: targetRowsExist_cases)
  let ?g = "arrayFrom (rowCount st) (\<lambda>_. []) :: grid"
  let ?SA = "soprano uuidv4 st @ alto uuidv4 st"
  let ?TB = "tenor uuidv4 st @ bass uuidv4 st"
  let ?g1 = "map (\<lambda>r. ?g ! r @ map Filled (sentTo [0, 1] 0 r ?SA)) [0..<length ?g]"
  have 1: "flatInsert ?SA [0, 1] ?g = Inr ?g1"
    using R by (intro flatInsert_sentTo) auto
  have 2: "flatInsert ?TB [2] ?g1 =
      Inr (map (\<lambda>r. ?g1 ! r @ map Filled (sentTo [2] 0 r ?TB)) [0..<length ?g1])"
    using R by (intro flatInsert_sentTo) auto
  show ?thesis
    using Condition1 1 2
    by (simp add: distribute_def insertCalls_def sourceGroups_def targetRowGroups_def)
next
  case Condition2
  then have R: "4 \<le> rowCount st"
    using assms by (simp add: targetRowsExist_cases)
  let ?g = "arrayFrom (rowCount st) (\<lambda>_. []) :: grid"
  let ?SA = "soprano uuidv4 st @ alto uuidv4 st"
  let ?TB = "tenor uuidv4 st @ bass uuidv4 st"
  let ?g1 = "map (\<lambda>r. ?g ! r @ map Filled (sentTo [0, 1, 2] 0 r ?SA)) [0..<length ?g]"
  have 1: "flatInsert ?SA [0, 1, 2] ?g = Inr ?g1"
    using R by (intro flatInsert_sentTo) auto
  have 2: "flatInsert ?TB [3] ?g1 =
      Inr (map (\<lambda>r. ?g1 ! r @ map Filled (sentTo [3] 0 r ?TB)) [0..<length ?g1])"
    using R by (intro flatInsert_sentTo) auto
  show ?thesis
    using Condition2 1 2
    by (simp add: distribute_def insertCalls_def sourceGroups_def targetRowGroups_def)
qed

lemma flatInsert_result:
  assumes "flatInsert ms ts g = Inr g'"
  shows "g' = map (\<lambda>r. g ! r @ map Filled (sentTo ts 0 r ms)) [0..<length g]"
  using assms unfolding flatInsert_def by (rule flatInsert_loop_result)

lemma distribute_result:
  assumes "distribute uuidv4 st = Inr raw"
  shows "raw = map (\<lambda>r. concat (map (\<lambda>(ms, ts). map Filled (sentTo ts 0 r ms))
                                  (insertCalls uuidv4 st)))
                 [0..<nat (rowCount st)]"
proof -
  let ?g = "arrayFrom (rowCount st) (\<lambda>_. []) :: grid"
  let ?SA = "soprano uuidv4 st @ alto uuidv4 st"
  let ?TB = "tenor uuidv4 st @ bass uuidv4 st"
  have two: "raw = map (\<lambda>r. map Filled (sentTo ts 0 r ?SA) @ map Filled (sentTo ts' 0 r ?TB))
                     [0..<nat (rowCount st)]"
    if 1: "flatInsert ?SA ts ?g = Inr g1" and 2: "flatInsert ?TB ts' g1 = Inr raw"
    for ts ts' g1
    using flatInsert_result [OF 2] by (simp add: flatInsert_result [OF 1])
  show ?thesis
  proof (cases "layoutMode st")
    case Auto
    then have "flatInsert (roster uuidv4 st) (arrayFrom (rowCount st) (\<lambda>i. i)) ?g = Inr raw"
      using assms by (simp add: distribute_def roster_def)
    from flatInsert_result [OF this] show ?thesis
      using Auto
      by (simp add: roster_def insertCalls_def sourceGroups_def targetRowGroups_def)
  next
    case Condition1
    then obtain g1 where "flatInsert ?SA [0, 1] ?g = Inr g1" "flatInsert ?TB [2] g1 = Inr raw"
      using assms by (auto simp add: distribute_def split: sum.splits)
    from two [OF this] show ?thesis
      using Condition1 by (simp add: insertCalls_def sourceGroups_def targetRowGroups_def)
  next
    case Condition2
    then obtain g1 where "flatInsert ?SA [0, 1, 2] ?g = Inr g1" "flatInsert ?TB [3] g1 = Inr raw"
      using assms by (auto simp add: distribute_def split: sum.splits)
    from two [OF this] show ?thesis
      using Condition2 by (simp add: insertCalls_def sourceGroups_def targetRowGroups_def)
  qed
qed

lemma sentTo_upt:
  assumes "r < n"
  shows "sentTo [0..<n] 0 r xs = roundRobinRow xs n r"
  using sentTo_distinct [of "[0..<n]" r xs] assms by simp

lemma roundRobinRow_Suc_0: "roundRobinRow xs (Suc 0) 0 = xs"
  by (simp add: roundRobinRow_def map_nth)

lemma sentTo_pair:
  "sentTo [0, Suc 0] 0 r xs =
     (if r = 0 then roundRobinRow xs 2 0
      else if r = Suc 0 then roundRobinRow xs 2 (Suc 0) else [])"
  using sentTo_distinct [of "[0, Suc 0]" 0 xs] sentTo_distinct [of "[0, Suc 0]" "Suc 0" xs]
    sentTo_outside [of "[0, Suc 0]" r 0 xs]
  by (auto simp add: numeral_2_eq_2)

lemma sentTo_triple:
  "sentTo [0, Suc 0, 2] 0 r xs =
     (if r = 0 then roundRobinRow xs 3 0
      else if r = Suc 0 then roundRobinRow xs 3 (Suc 0)
      else if r = 2 then roundRobinRow xs 3 2 else [])"
  using sentTo_distinct [of "[0, Suc 0, 2]" 0 xs]
    sentTo_distinct [of "[0, Suc 0, 2]" "Suc 0" xs]
    sentTo_distinct [of "[0, Suc 0, 2]" 2 xs] sentTo_outside [of "[0, Suc 0, 2]" r 0 xs]
  by (auto simp add: numeral_3_eq_3 numeral_2_eq_2)

lemma sentTo_single:
  "sentTo [t] 0 r xs = (if r = t then xs else [])"
  using sentTo_distinct [of "[t]" 0 xs] sentTo_outside [of "[t]" r 0 xs]
  by (auto simp add: roundRobinRow_Suc_0)

lemma distribute_Auto:
  assumes "layoutMode st = Auto" and "distribute uuidv4 st = Inr raw"
  shows "raw = map (\<lambda>r. map Filled (roundRobinRow (roster uuidv4 st) (nat (rowCount st)) r))
                 [0..<nat (rowCount st)]"
  using distribute_result [OF assms(2)] assms(1)
  by (simp add: insertCalls_def sourceGroups_def targetRowGroups_def arrayFrom_id sentTo_upt
      roster_def)

lemma distribute_Condition1:
  assumes "layoutMode st = Condition1" and "distribute uuidv4 st = Inr raw"
  shows "raw = map (\<lambda>r. map Filled
                     (if r = 0 then roundRobinRow (soprano uuidv4 st @ alto uuidv4 st) 2 0
                      else if r = 1 then roundRobinRow (soprano uuidv4 st @ alto uuidv4 st) 2 1
                      else if r = 2 then tenor uuidv4 st @ bass uuidv4 st
                      else []))
                 [0..<nat (rowCount st)]"
  using distribute_result [OF assms(2)] assms(1)
  by (simp add: insertCalls_def sourceGroups_def targetRowGroups_def sentTo_pair sentTo_single)

lemma distribute_Condition2:
  assumes "layoutMode st = Condition2" and "distribute uuidv4 st = Inr raw"
  shows "raw = map (\<lambda>r. map Filled
                     (if r = 0 then roundRobinRow (soprano uuidv4 st @ alto uuidv4 st) 3 0
                      else if r = 1 then roundRobinRow (soprano uuidv4 st @ alto uuidv4 st) 3 1
                      else if r = 2 then roundRobinRow (soprano uuidv4 st @ alto uuidv4 st) 3 2
                      else if r = 3 then tenor uuidv4 st @ bass uuidv4 st
                      else []))
                 [0..<nat (rowCount st)]"
  using distribute_result [OF assms(2)] assms(1)
  by (simp add: insertCalls_def sourceGroups_def targetRowGroups_def sentTo_triple sentTo_single)

section \<open>Balancing\<close>

lemma balanceRow_fits:
  assumes "length row \<le> maxLength"
  shows "balanceRow maxLength row =
           replicate ((maxLength - length row) div 2) Null @ row
           @ replicate (maxLength - length row - (maxLength - length row) div 2) Null"
  using assms by (simp add: balanceRow_def Let_def)

lemma length_balanceRow:
  assumes "length row \<le> maxLength"
  shows "length (balanceRow maxLength row) = maxLength"
  using assms by (simp add: balanceRow_fits)

lemma length_le_Max:
  assumes "row \<in> set g"
  shows "length row \<le> Max (set (map length g))"
  using assms by (intro Max_ge) auto

lemma balancedRows_nonempty:
  assumes "g \<noteq> []" and "length g \<le> maxArguments"
  shows "balancedRows maxArguments g = Inr (map (balanceRow (Max (set (map length g)))) g)"
  using assms by (simp add: balancedRows_def Math_max_def)

lemma balancedRows_too_many:
  assumes "maxArguments < length g"
  shows "balancedRows maxArguments g = Inl RangeError"
  using assms by (simp add: balancedRows_def Math_max_def)

lemma balancedRows_cases:
  "balancedRows maxArguments g =
     (if maxArguments < length g then Inl RangeError
      else if g = [] then Inr []
      else Inr (map (balanceRow (Max (set (map length g)))) g))"
  by (simp add: balancedRows_def Math_max_def)

lemma distribute_length:
  assumes "targetRowsExist st"
  shows "\<exists>raw. distribute uuidv4 st = Inr raw \<and> length raw = nat (rowCount st)"
  using assms by (simp add: distribute_rows)

lemma generateMembers_too_many_rows:
  assumes "targetRowsExist st" and "maxArguments < nat (rowCount st)"
  shows "generateMembers maxArguments uuidv4 st = Inl RangeError"
proof -
  obtain raw where raw: "distribute uuidv4 st = Inr raw" "length raw = nat (rowCount st)"
    using distribute_length [OF assms(1)] by blast
  have "balancedRows maxArguments raw = Inl RangeError"
    using assms(2) raw(2) by (simp add: balancedRows_too_many)
  then show ?thesis
    by (simp add: generateMembers_def raw(1))
qed

section \<open>Decimal numerals\<close>

lemma digit_of_decimal:
  assumes "d < 10"
  shows "radix_digit 10 (char_of (48 + d)) = Some d"
  using assms by (simp add: radix_digit_def digit_of_def Let_def)

lemma radix_value_snoc:
  "radix_value R (Z @ [c]) =
     R * radix_value R Z + (case radix_digit R c of None \<Rightarrow> 0 | Some d \<Rightarrow> d)"
  by (simp add: radix_value_def)

lemma radix_value_single:
  "radix_value R [c] = (case radix_digit R c of None \<Rightarrow> 0 | Some d \<Rightarrow> d)"
  by (simp add: radix_value_def)

lemma radix_value_numberToString: "radix_value 10 (numberToString n) = n"
proof (induction n rule: numberToString.induct)
  case (1 n)
  show ?case
  proof (cases "n < 10")
    case True
    then show ?thesis
      by (simp add: numberToString.simps [of n] radix_value_single digit_of_decimal)
  next
    case False
    then have "radix_value 10 (numberToString (n div 10)) = n div 10"
      using 1 by simp
    then show ?thesis
      using False
      by (simp add: numberToString.simps [of n] radix_value_snoc digit_of_decimal)
  qed
qed

lemma numberToString_inj: "numberToString a = numberToString b \<Longrightarrow> a = b"
  by (metis radix_value_numberToString)

section \<open>The rosters\<close>

lemma length_buildPart:
  "length (buildPart uuidv4 k countText c p) = nat (orElse (parseInt countText) 0)"
  by (simp add: buildPart_def)

lemma nth_buildPart:
  assumes "i < length (buildPart uuidv4 k countText c p)"
  shows "buildPart uuidv4 k countText c p ! i
           = \<lparr>id_m = uuidv4 (k + i), name = c # numberToString i, part = p\<rparr>"
  using assms by (simp add: buildPart_def)

lemma part_buildPart:
  assumes "m \<in> set (buildPart uuidv4 k countText c p)"
  shows "part m = p"
  using assms by (auto simp add: buildPart_def arrayFrom_def)

lemma distinct_buildPart: "distinct (buildPart uuidv4 k countText c p)"
  by (auto simp add: buildPart_def arrayFrom_def distinct_map intro!: inj_onI
      dest: numberToString_inj)

lemma distinct_roster: "distinct (roster uuidv4 st)"
  by (auto simp add: roster_def soprano_def alto_def tenor_def bass_def distinct_buildPart
      dest!: part_buildPart)

section \<open>Conservation of the members\<close>

lemma mset_concat_update:
  assumes "r < length g"
  shows "mset (concat (g[r := row'])) + mset (g ! r) = mset (concat g) + mset row'"
proof -
  have "mset (concat g) = mset (concat (take r g @ g ! r # drop (Suc r) g))"
    using assms by (simp add: id_take_nth_drop [symmetric])
  moreover have "mset (concat (g[r := row'])) = mset (concat (take r g @ row' # drop (Suc r) g))"
    using assms by (simp add: upd_conv_take_nth_drop)
  ultimately show ?thesis
    by simp
qed

lemma mset_concat_push:
  assumes "r < length g"
  shows "mset (concat (g[r := g ! r @ [x]])) = add_mset x (mset (concat g))"
  using mset_concat_update [OF assms, of "g ! r @ [x]"] by simp

lemma mset_flatInsert_loop:
  assumes "flatInsert_loop ms ts i g = Inr g'"
  shows "mset (concat g') = mset (concat g) + mset (map Filled ms)"
  using assms
proof (induction ms arbitrary: i g)
  case Nil
  then show ?case by simp
next
  case (Cons m ms)
  let ?row = "ts ! (i mod length ts)"
  from Cons.prems have ok: "ts \<noteq> []" "?row < length g"
    by (auto simp add: Let_def split: if_splits)
  then have "flatInsert_loop ms ts (i + 1) (g[?row := g ! ?row @ [Filled m]]) = Inr g'"
    using Cons.prems by (simp add: Let_def)
  then have "mset (concat g')
      = mset (concat (g[?row := g ! ?row @ [Filled m]])) + mset (map Filled ms)"
    by (rule Cons.IH)
  then show ?case
    using ok by (simp add: mset_concat_push)
qed

lemma concat_arrayFrom_Nil: "concat (arrayFrom n (\<lambda>_. [])) = []"
  by (simp add: arrayFrom_def)

lemma mset_distribute:
  assumes "distribute uuidv4 st = Inr raw"
  shows "mset (concat raw) = mset (map Filled (roster uuidv4 st))"
proof -
  let ?g = "arrayFrom (rowCount st) (\<lambda>_. []) :: grid"
  let ?SA = "soprano uuidv4 st @ alto uuidv4 st"
  let ?TB = "tenor uuidv4 st @ bass uuidv4 st"
  have two: "mset (concat raw) = mset (map Filled (roster uuidv4 st))"
    if 1: "flatInsert ?SA ts ?g = Inr g1" and 2: "flatInsert ?TB ts' g1 = Inr raw"
    for ts ts' g1
  proof -
    have "mset (concat g1) = mset (map Filled ?SA)"
      using mset_flatInsert_loop [OF 1 [unfolded flatInsert_def]]
      by (simp add: concat_arrayFrom_Nil)
    moreover have "mset (concat raw) = mset (concat g1) + mset (map Filled ?TB)"
      using mset_flatInsert_loop [OF 2 [unfolded flatInsert_def]] .
    ultimately show ?thesis
      by (simp add: roster_def)
  qed
  show ?thesis
  proof (cases "layoutMode st")
    case Auto
    then have "flatInsert (roster uuidv4 st) (arrayFrom (rowCount st) (\<lambda>i. i)) ?g = Inr raw"
      using assms by (simp add: distribute_def roster_def)
    from mset_flatInsert_loop [OF this [unfolded flatInsert_def]] show ?thesis
      by (simp add: concat_arrayFrom_Nil)
  next
    case Condition1
    then show ?thesis
      using assms two by (auto simp add: distribute_def split: sum.splits)
  next
    case Condition2
    then show ?thesis
      using assms two by (auto simp add: distribute_def split: sum.splits)
  qed
qed

lemma filter_balanceRow:
  assumes "length row \<le> maxLength"
  shows "filter (\<lambda>s. s \<noteq> Null) (balanceRow maxLength row) = filter (\<lambda>s. s \<noteq> Null) row"
  using assms by (simp add: balanceRow_fits)

lemma nonEmptySlots_balanced:
  "nonEmptySlots (map (balanceRow (Max (set (map length g)))) g) = nonEmptySlots g"
proof -
  let ?mx = "Max (set (map length g))"
  let ?P = "\<lambda>s. s \<noteq> Null"
  have eq: "map (filter ?P \<circ> balanceRow ?mx) g = map (filter ?P) g"
    by (rule map_cong [OF refl]) (simp add: filter_balanceRow length_le_Max)
  have "nonEmptySlots (map (balanceRow ?mx) g) = concat (map (filter ?P \<circ> balanceRow ?mx) g)"
    by (simp only: nonEmptySlots_def filter_concat map_map)
  also have "\<dots> = concat (map (filter ?P) g)"
    by (simp only: eq)
  also have "\<dots> = nonEmptySlots g"
    by (simp only: nonEmptySlots_def filter_concat)
  finally show ?thesis .
qed

lemma nonEmptySlots_balancedRows:
  assumes "balancedRows maxArguments g = Inr balanced"
  shows "nonEmptySlots balanced = nonEmptySlots g"
  using assms nonEmptySlots_balanced [of g]
  by (auto simp add: balancedRows_cases split: if_splits)

lemma filter_Filled: "filter (\<lambda>s. s \<noteq> Null) (map Filled ms) = map Filled ms"
  by (induction ms) simp_all

lemma mset_nonEmptySlots_generate:
  assumes "distribute uuidv4 st = Inr raw"
    and "balancedRows maxArguments raw = Inr balanced"
  shows "mset (nonEmptySlots balanced) = mset (map Filled (roster uuidv4 st))"
proof -
  let ?P = "\<lambda>s. s \<noteq> Null"
  have "mset (nonEmptySlots raw) = filter_mset ?P (mset (concat raw))"
    by (simp add: nonEmptySlots_def)
  also have "\<dots> = filter_mset ?P (mset (map Filled (roster uuidv4 st)))"
    by (simp only: mset_distribute [OF assms(1)])
  also have "\<dots> = mset (filter ?P (map Filled (roster uuidv4 st)))"
    by (simp only: mset_filter)
  also have "\<dots> = mset (map Filled (roster uuidv4 st))"
    by (simp only: filter_Filled)
  finally show ?thesis
    by (simp only: nonEmptySlots_balancedRows [OF assms(2)])
qed

lemma distinct_Filled_roster: "distinct (map Filled (roster uuidv4 st))"
  by (simp add: distinct_map distinct_roster inj_on_def)

lemma mset_list_update:
  assumes "i < length l"
  shows "mset (l[i := v]) + {#l ! i#} = mset l + {#v#}"
  using assms by (simp add: mset_update)

lemma mset_concat_exchanged:
  assumes "validAddress g fr fi" and "validAddress g tr ti"
  shows "mset (concat (exchanged g fr fi tr ti)) = mset (concat g)"
proof -
  let ?x = "g ! fr ! fi" and ?y = "g ! tr ! ti"
  let ?g1 = "g[fr := (g ! fr)[fi := ?y]]"
  let ?g2 = "?g1[tr := (?g1 ! tr)[ti := ?x]]"
  have fr: "fr < length g" "fi < length (g ! fr)" and tr: "tr < length g" "ti < length (g ! tr)"
    using assms by (simp_all add: validAddress_def)
  have y: "?g1 ! tr ! ti = ?y"
    using fr tr by (cases "fr = tr"; cases "fi = ti") simp_all
  have ti1: "ti < length (?g1 ! tr)"
    using tr by (simp add: length_nth_update_row)
  have 1: "mset (concat ?g1) + mset (g ! fr) = mset (concat g) + mset ((g ! fr)[fi := ?y])"
    using fr(1) by (rule mset_concat_update)
  have 2: "mset ((g ! fr)[fi := ?y]) + {#?x#} = mset (g ! fr) + {#?y#}"
    using fr(2) by (rule mset_list_update)
  have 3: "mset (concat ?g2) + mset (?g1 ! tr)
      = mset (concat ?g1) + mset ((?g1 ! tr)[ti := ?x])"
    using tr(1) by (intro mset_concat_update) simp
  have 4: "mset ((?g1 ! tr)[ti := ?x]) + {#?y#} = mset (?g1 ! tr) + {#?x#}"
    using mset_list_update [OF ti1, of ?x] y by simp
  have a: "mset (concat ?g1) + {#?x#} = mset (concat g) + {#?y#}"
  proof -
    have "mset (concat ?g1) + {#?x#} + mset (g ! fr)
        = mset (concat g) + (mset ((g ! fr)[fi := ?y]) + {#?x#})"
      using 1 by (simp add: ac_simps)
    also have "\<dots> = mset (concat g) + {#?y#} + mset (g ! fr)"
      using 2 by (simp add: ac_simps)
    finally show ?thesis
      by (simp only: add_right_cancel)
  qed
  have "mset (concat ?g2) + {#?y#} + mset (?g1 ! tr)
      = mset (concat ?g1) + (mset ((?g1 ! tr)[ti := ?x]) + {#?y#})"
    using 3 by (simp add: ac_simps)
  also have "\<dots> = mset (concat ?g1) + {#?x#} + mset (?g1 ! tr)"
    using 4 by (simp add: ac_simps)
  also have "\<dots> = mset (concat g) + {#?y#} + mset (?g1 ! tr)"
    by (simp only: a)
  finally have "mset (concat ?g2) + {#?y#} = mset (concat g) + {#?y#}"
    by (simp only: add_right_cancel)
  then have "mset (concat ?g2) = mset (concat g)"
    by (simp only: add_right_cancel)
  then show ?thesis
    by (simp add: exchanged_def Let_def)
qed

lemma mset_nonEmptySlots_exchanged:
  assumes "validAddress g fr fi" and "validAddress g tr ti"
  shows "mset (nonEmptySlots (exchanged g fr fi tr ti)) = mset (nonEmptySlots g)"
  by (simp only: nonEmptySlots_def mset_filter mset_concat_exchanged [OF assms])

section \<open>The claims about \<open>generateMembers\<close>\<close>

text \<open>
  Claim C1, as the code has it. When the row count \<open>R\<close> is at least 1, the target rows of
  the policy all exist and \<open>R\<close> is no more than the arguments one call can take,
  \<open>generateMembers\<close> succeeds with exactly \<open>R\<close> rows. With \<open>maxLength\<close> the greatest length
  of a row before balancing, every final row has \<open>maxLength\<close> slots and is \<open>padLeft\<close> empty
  slots, then the row's own members in their order, then \<open>padRight\<close> empty slots, where
  \<open>diff = maxLength - length\<close>, \<open>padLeft = diff div 2\<close> and \<open>padRight = diff - padLeft\<close>.
\<close>

theorem generateMembers_balanced:
  assumes "targetRowsExist st" and "nat (rowCount st) \<le> maxArguments"
  shows "\<exists>raw st'. distribute uuidv4 st = Inr raw
           \<and> generateMembers maxArguments uuidv4 st = Inr st'
           \<and> length raw = nat (rowCount st)
           \<and> length (rows st') = nat (rowCount st)
           \<and> (\<forall>r < nat (rowCount st).
                let maxLength = Max (set (map length raw));
                    diff = maxLength - length (raw ! r);
                    padLeft = diff div 2;
                    padRight = diff - padLeft
                in length (rows st' ! r) = maxLength
                   \<and> rows st' ! r
                       = replicate padLeft Null @ raw ! r @ replicate padRight Null)"
proof -
  obtain raw where raw: "distribute uuidv4 st = Inr raw" "length raw = nat (rowCount st)"
    using distribute_length [OF assms(1)] by blast
  have "1 \<le> rowCount st"
    using assms(1) by (simp add: targetRowsExist_def)
  then have ne: "raw \<noteq> []"
    using raw(2) by auto
  have fits: "length raw \<le> maxArguments"
    using assms(2) raw(2) by simp
  let ?mx = "Max (set (map length raw))"
  let ?st' = "st\<lparr>rows := map (balanceRow ?mx) raw\<rparr>"
  have gen: "generateMembers maxArguments uuidv4 st = Inr ?st'"
    by (simp add: generateMembers_def raw(1) balancedRows_nonempty [OF ne fits])
  have row: "length (raw ! r) \<le> ?mx" if "r < nat (rowCount st)" for r
    using that raw(2) by (intro length_le_Max) simp
  have nth: "rows ?st' ! r = balanceRow ?mx (raw ! r)" if "r < nat (rowCount st)" for r
    using that raw(2) by simp
  have len: "length (rows ?st' ! r) = ?mx" if "r < nat (rowCount st)" for r
    using that nth [OF that] row [OF that] by (simp only: length_balanceRow)
  have pad: "rows ?st' ! r
          = replicate ((?mx - length (raw ! r)) div 2) Null @ raw ! r
            @ replicate (?mx - length (raw ! r) - (?mx - length (raw ! r)) div 2) Null"
    if "r < nat (rowCount st)" for r
    using that nth [OF that] row [OF that] by (simp only: balanceRow_fits)
  have "length (rows ?st') = nat (rowCount st)"
    using raw(2) by simp
  then show ?thesis
    unfolding Let_def using raw gen len pad by blast
qed

lemma targetRowsExist_oneSoprano: "targetRowsExist oneSoprano"
  by (simp add: targetRowsExist_cases oneSoprano_def initialState_def)

lemma rowCount_oneSoprano: "nat (rowCount oneSoprano) \<le> argLimit"
  by (simp add: oneSoprano_def initialState_def argLimit_def)

lemma distribute_oneSoprano: "distribute uuidSeq oneSoprano = Inr [[S0], []]"
  unfolding S0_def by code_simp

lemma balancedRows_oneSoprano: "balancedRows argLimit [[S0], []] = Inr [[S0], [Null]]"
  by (simp add: balancedRows_cases balanceRow_def argLimit_def)

theorem generateMembers_balanced_witness:
  "targetRowsExist oneSoprano \<and> nat (rowCount oneSoprano) \<le> argLimit
   \<and> distribute uuidSeq oneSoprano = Inr [[S0], []]
   \<and> generateMembers argLimit uuidSeq oneSoprano = Inr (oneSoprano\<lparr>rows := [[S0], [Null]]\<rparr>)"
  using generateMembers_balanced [OF targetRowsExist_oneSoprano rowCount_oneSoprano, of uuidSeq]
    targetRowsExist_oneSoprano rowCount_oneSoprano distribute_oneSoprano
    balancedRows_oneSoprano
  by (simp add: generateMembers_def)

text \<open>
  The claim as the specification words it fails: with a million rows, the target rows of
  the automatic policy all exist, yet the call that spreads one length per row into
  \<^verbatim>\<open>Math.max\<close> has more arguments than the limit and throws a \<^verbatim>\<open>RangeError\<close>.
\<close>

theorem generateMembers_balanced_limit:
  "targetRowsExist (initialState\<lparr>rowCount := 1000000\<rparr>)
   \<and> generateMembers argLimit uuidSeq (initialState\<lparr>rowCount := 1000000\<rparr>) = Inl RangeError"
  using generateMembers_too_many_rows [of "initialState\<lparr>rowCount := 1000000\<rparr>" argLimit uuidSeq]
  by (simp add: targetRowsExist_cases initialState_def argLimit_def)

text \<open>
  Claim C2. Under every policy, whenever distribution produces rows, each call of
  \<open>flatInsert\<close> has dealt its member sequence round-robin over its group of \<open>k\<close> target
  rows: the \<open>j\<close>-th row of the group holds the members at the positions \<open>p\<close> with
  \<open>p mod k = j\<close>, in source order, and a row outside every group is empty. Under the
  automatic policy the group is all \<open>R\<close> rows and the sequence is soprano, alto, tenor,
  bass. Distribution does produce rows when the target rows of the policy exist.
\<close>

theorem distribute_round_robin:
  "(targetRowsExist st \<longrightarrow> (\<exists>raw. distribute uuidv4 st = Inr raw))
   \<and> (\<forall>raw. distribute uuidv4 st = Inr raw \<longrightarrow>
        length raw = nat (rowCount st)
        \<and> (\<forall>(members, targetRows) \<in> set (insertCalls uuidv4 st).
             \<forall>j < length targetRows.
               targetRows ! j < length raw \<longrightarrow>
               raw ! (targetRows ! j)
                 = map Filled (roundRobinRow members (length targetRows) j))
        \<and> (\<forall>r < length raw.
             (\<forall>targetRows \<in> set (targetRowGroups st). r \<notin> set targetRows)
               \<longrightarrow> raw ! r = [])
        \<and> (layoutMode st = Auto \<longrightarrow>
             (\<forall>r < length raw.
                raw ! r = map Filled
                  (roundRobinRow
                     (soprano uuidv4 st @ alto uuidv4 st @ tenor uuidv4 st @ bass uuidv4 st)
                     (length raw) r))))"
proof -
  have rule: "length raw = nat (rowCount st)
        \<and> (\<forall>(members, targetRows) \<in> set (insertCalls uuidv4 st).
             \<forall>j < length targetRows.
               targetRows ! j < length raw \<longrightarrow>
               raw ! (targetRows ! j)
                 = map Filled (roundRobinRow members (length targetRows) j))
        \<and> (\<forall>r < length raw.
             (\<forall>targetRows \<in> set (targetRowGroups st). r \<notin> set targetRows)
               \<longrightarrow> raw ! r = [])
        \<and> (layoutMode st = Auto \<longrightarrow>
             (\<forall>r < length raw.
                raw ! r = map Filled
                  (roundRobinRow
                     (soprano uuidv4 st @ alto uuidv4 st @ tenor uuidv4 st @ bass uuidv4 st)
                     (length raw) r)))"
    if raw: "distribute uuidv4 st = Inr raw" for raw
  proof (cases "layoutMode st")
    case Auto
    show ?thesis
      using Auto
      by (simp add: distribute_Auto [OF Auto raw] insertCalls_def sourceGroups_def
          targetRowGroups_def arrayFrom_id roster_def)
  next
    case Condition1
    show ?thesis
      using Condition1
      by (simp add: distribute_Condition1 [OF Condition1 raw] insertCalls_def sourceGroups_def
          targetRowGroups_def less_Suc_eq numeral_2_eq_2 roundRobinRow_Suc_0 all_conj_distrib)
  next
    case Condition2
    show ?thesis
      using Condition2
      by (simp add: distribute_Condition2 [OF Condition2 raw] insertCalls_def sourceGroups_def
          targetRowGroups_def less_Suc_eq numeral_3_eq_3 numeral_2_eq_2 roundRobinRow_Suc_0
          all_conj_distrib)
  qed
  have total: "targetRowsExist st \<longrightarrow> (\<exists>raw. distribute uuidv4 st = Inr raw)"
    using distribute_length [of st uuidv4] by blast
  show ?thesis
    using rule total by blast
qed

lemma targetRowsExist_twoByTwo: "targetRowsExist twoByTwo"
  by (simp add: targetRowsExist_cases twoByTwo_def initialState_def)

lemma distribute_twoByTwo: "distribute uuidSeq twoByTwo = Inr [[S0, A0], [S1, A1]]"
  unfolding S0_def S1_def A0_def A1_def by code_simp

theorem distribute_round_robin_witness:
  "targetRowsExist twoByTwo \<and> distribute uuidSeq twoByTwo = Inr [[S0, A0], [S1, A1]]"
  using distribute_round_robin [of twoByTwo uuidSeq]
    targetRowsExist_twoByTwo distribute_twoByTwo
  by simp

text \<open>
  Claim C3, as the code has it. When the target rows of the policy exist (\<open>Auto\<close> with at
  least one row, \<open>Condition1\<close> with at least three, \<open>Condition2\<close> with at least four: lemma
  \<open>targetRowsExist_cases\<close>) and the row count is no more than the arguments one call can
  take, the non-empty slots of the generated grid are as many as the roster has members,
  they hold exactly the members of that roster, and no two of them hold the same member.
  A swap of two valid addresses, on any grid, leaves the contents of the non-empty slots
  the same as a multiset, so it keeps all three.
\<close>

theorem members_conserved:
  assumes "targetRowsExist st" and "nat (rowCount st) \<le> maxArguments"
  shows "\<exists>st'. generateMembers maxArguments uuidv4 st = Inr st'
           \<and> length (nonEmptySlots (rows st')) = length (roster uuidv4 st)
           \<and> mset (nonEmptySlots (rows st')) = mset (map Filled (roster uuidv4 st))
           \<and> distinct (nonEmptySlots (rows st'))
           \<and> (\<forall>st1 fromRow fromIndex toRow toIndex.
                validAddress (rows st1) fromRow fromIndex
                  \<and> validAddress (rows st1) toRow toIndex
                \<longrightarrow> (\<exists>st2. moveMember fromRow fromIndex toRow toIndex st1 = Inr st2
                       \<and> mset (nonEmptySlots (rows st2)) = mset (nonEmptySlots (rows st1))
                       \<and> length (nonEmptySlots (rows st2)) = length (nonEmptySlots (rows st1))
                       \<and> distinct (nonEmptySlots (rows st2))
                           = distinct (nonEmptySlots (rows st1))))"
proof -
  obtain raw where raw: "distribute uuidv4 st = Inr raw" "length raw = nat (rowCount st)"
    using distribute_length [OF assms(1)] by blast
  have "1 \<le> rowCount st"
    using assms(1) by (simp add: targetRowsExist_def)
  then have ne: "raw \<noteq> []"
    using raw(2) by auto
  have fits: "length raw \<le> maxArguments"
    using assms(2) raw(2) by simp
  let ?balanced = "map (balanceRow (Max (set (map length raw)))) raw"
  let ?st' = "st\<lparr>rows := ?balanced\<rparr>"
  have bal: "balancedRows maxArguments raw = Inr ?balanced"
    using ne fits by (rule balancedRows_nonempty)
  have gen: "generateMembers maxArguments uuidv4 st = Inr ?st'"
    by (simp add: generateMembers_def raw(1) bal)
  have ms: "mset (nonEmptySlots (rows ?st')) = mset (map Filled (roster uuidv4 st))"
    using mset_nonEmptySlots_generate [OF raw(1) bal] by simp
  have len: "length (nonEmptySlots (rows ?st')) = length (roster uuidv4 st)"
    using mset_eq_length [OF ms] by simp
  have dist: "distinct (nonEmptySlots (rows ?st'))"
    using mset_eq_imp_distinct_iff [OF ms] distinct_Filled_roster by blast
  have swap: "\<exists>st2. moveMember fromRow fromIndex toRow toIndex st1 = Inr st2
        \<and> mset (nonEmptySlots (rows st2)) = mset (nonEmptySlots (rows st1))
        \<and> length (nonEmptySlots (rows st2)) = length (nonEmptySlots (rows st1))
        \<and> distinct (nonEmptySlots (rows st2)) = distinct (nonEmptySlots (rows st1))"
    if v: "validAddress (rows st1) fromRow fromIndex" "validAddress (rows st1) toRow toIndex"
    for st1 fromRow fromIndex toRow toIndex
  proof -
    let ?st2 = "st1\<lparr>rows := exchanged (rows st1) fromRow fromIndex toRow toIndex\<rparr>"
    have run: "moveMember fromRow fromIndex toRow toIndex st1 = Inr ?st2"
      using v by (rule moveMember_valid)
    have m: "mset (nonEmptySlots (rows ?st2)) = mset (nonEmptySlots (rows st1))"
      using mset_nonEmptySlots_exchanged [OF v] by simp
    show ?thesis
      using run m mset_eq_length [OF m] mset_eq_imp_distinct_iff [OF m] by blast
  qed
  show ?thesis
    using gen ms len dist swap by blast
qed

lemma rowCount_twoByTwo: "nat (rowCount twoByTwo) \<le> argLimit"
  by (simp add: twoByTwo_def initialState_def argLimit_def)

lemma balancedRows_twoByTwo:
  "balancedRows argLimit [[S0, A0], [S1, A1]] = Inr [[S0, A0], [S1, A1]]"
  by (simp add: balancedRows_cases balanceRow_def argLimit_def)

theorem members_conserved_witness:
  "targetRowsExist twoByTwo \<and> nat (rowCount twoByTwo) \<le> argLimit
   \<and> generateMembers argLimit uuidSeq twoByTwo
       = Inr (twoByTwo\<lparr>rows := [[S0, A0], [S1, A1]]\<rparr>)
   \<and> nonEmptySlots [[S0, A0], [S1, A1]] = [S0, A0, S1, A1]
   \<and> validAddress [[S0, A0], [S1, A1]] 0 1 \<and> validAddress [[S0, A0], [S1, A1]] 1 0
   \<and> moveMember 0 1 1 0 (twoByTwo\<lparr>rows := [[S0, A0], [S1, A1]]\<rparr>)
       = Inr (twoByTwo\<lparr>rows := [[S0, S1], [A0, A1]]\<rparr>)"
  using members_conserved [OF targetRowsExist_twoByTwo rowCount_twoByTwo, of uuidSeq]
    targetRowsExist_twoByTwo rowCount_twoByTwo distribute_twoByTwo balancedRows_twoByTwo
  by (simp add: generateMembers_def nonEmptySlots_def validAddress_def moveMember_def
      arrayGet_def arraySet_def Let_def S0_def S1_def A0_def A1_def)

text \<open>
  The claim as the specification words it fails: \<open>Condition2\<close> on two million rows has all its
  target rows, yet no grid is generated, so none holds the roster: the call that spreads
  one length per row into \<^verbatim>\<open>Math.max\<close> throws a \<^verbatim>\<open>RangeError\<close>.
\<close>

theorem members_conserved_limit:
  "targetRowsExist (initialState\<lparr>layoutMode := Condition2, rowCount := 2000000\<rparr>)
   \<and> generateMembers argLimit uuidSeq
         (initialState\<lparr>layoutMode := Condition2, rowCount := 2000000\<rparr>)
       = Inl RangeError"
  using generateMembers_too_many_rows
    [of "initialState\<lparr>layoutMode := Condition2, rowCount := 2000000\<rparr>" argLimit uuidSeq]
  by (simp add: targetRowsExist_cases initialState_def argLimit_def)

lemma distribute_Condition1_two_rows:
  "distribute uuidSeq (initialState\<lparr>layoutMode := Condition1, rowCount := 2\<rparr>) = Inl TypeError"
  by code_simp

lemma distribute_Condition2_three_rows:
  "distribute uuidSeq (initialState\<lparr>layoutMode := Condition2, rowCount := 3\<rparr>) = Inl TypeError"
  by code_simp

text \<open>
  Claim C5. A policy whose target row is missing is to be rejected up front or clamped to
  the last row. The code does neither: with \<open>Condition1\<close> on two rows, or \<open>Condition2\<close> on
  three, the tenors and basses are sent to a row that does not exist, the lookup of that
  row gives \<^verbatim>\<open>undefined\<close>, and the \<^verbatim>\<open>push\<close> throws a \<^verbatim>\<open>TypeError\<close>.
\<close>

theorem generateMembers_missing_row_throws:
  "generateMembers maxArguments uuidSeq
       (initialState\<lparr>layoutMode := Condition1, rowCount := 2\<rparr>)
     = Inl TypeError
   \<and> generateMembers maxArguments uuidSeq
       (initialState\<lparr>layoutMode := Condition2, rowCount := 3\<rparr>)
     = Inl TypeError"
  by (simp add: generateMembers_def distribute_Condition1_two_rows
      distribute_Condition2_three_rows)

section \<open>The roster and the numeric inputs\<close>

subsection \<open>The decimal text of a number reads back as that number\<close>

lemma is_radix_digit_10:
  "is_radix_digit 10 c = (48 \<le> (of_char c :: nat) \<and> (of_char c :: nat) \<le> 57)"
  by (auto simp add: is_radix_digit_def radix_digit_def digit_of_def Let_def)

lemma decimal_digit_plain:
  assumes "is_radix_digit 10 c"
  shows "\<not> isWhiteSpace c" "c \<noteq> CHR ''-''" "c \<noteq> CHR ''+''" "c \<noteq> CHR ''x''" "c \<noteq> CHR ''X''"
  using assms by (auto simp add: is_radix_digit_10 isWhiteSpace_def)

lemma numberToString_decimal:
  "numberToString n \<noteq> [] \<and> (\<forall>c \<in> set (numberToString n). is_radix_digit 10 c)"
proof (induction n rule: numberToString.induct)
  case (1 n)
  have d: "is_radix_digit 10 (char_of (48 + d))" if "d < 10" for d :: nat
    using that by (simp add: is_radix_digit_def digit_of_decimal)
  show ?case
  proof (cases "n < 10")
    case True
    then show ?thesis
      by (simp add: numberToString.simps [of n] d)
  next
    case False
    then show ?thesis
      using 1 by (simp add: numberToString.simps [of n] d)
  qed
qed

lemma parseInt_decimal:
  assumes "s \<noteq> []" and "\<forall>c \<in> set s. is_radix_digit 10 c"
  shows "parseInt s = Some (int (radix_value 10 s))"
proof -
  obtain c cs where s: "s = c # cs"
    using assms(1) by (cases s) auto
  have c: "is_radix_digit 10 c"
    using assms(2) s by simp
  have S: "dropWhile isWhiteSpace s = s"
    using decimal_digit_plain(1) [OF c] by (simp add: s)
  have sign: "hd s \<noteq> CHR ''-''" "hd s \<noteq> CHR ''+''"
    using decimal_digit_plain(2,3) [OF c] by (simp_all add: s)
  have nohex: "take 2 s \<noteq> ''0x''" "take 2 s \<noteq> ''0X''"
    using assms(2) s decimal_digit_plain(4,5) by (cases cs; auto)+
  have all: "takeWhile (is_radix_digit 10) s = s"
    using assms(2) by simp
  show ?thesis
    unfolding parseInt_def Let_def S
    using sign nohex assms(1) by (simp add: all)
qed

lemma parseInt_numberToString: "parseInt (numberToString n) = Some (int n)"
  using numberToString_decimal [of n]
  by (simp add: parseInt_decimal radix_value_numberToString)



subsection \<open>The decimal numeral, pinned down\<close>

lemma digit_chars: "map (\<lambda>d. char_of (48 + d)) [0..<10] = ''0123456789''"
  by code_simp

lemma digit_char_mem:
  assumes "d < (10 :: nat)"
  shows "char_of (48 + d) \<in> set ''0123456789''"
proof -
  have "char_of (48 + d) \<in> set (map (\<lambda>d. char_of (48 + d)) [0..<10])"
    using assms by auto
  then show ?thesis
    by (simp only: digit_chars)
qed

lemma of_char_digit:
  assumes "d < (10 :: nat)"
  shows "of_char (char_of (48 + d)) = (48 + d :: nat)"
  using assms by simp

lemma digit_char_zero:
  assumes "d < (10 :: nat)" and "char_of (48 + d) = CHR ''0''"
  shows "d = 0"
proof -
  have "of_char (char_of (48 + d)) = (of_char CHR ''0'' :: nat)"
    using assms(2) by simp
  then show ?thesis
    using assms(1) by (simp add: of_char_digit)
qed

lemma numberToString_nonempty: "numberToString n \<noteq> []"
  by (simp add: numberToString.simps [of n])

lemma numberToString_chars: "set (numberToString n) \<subseteq> set ''0123456789''"
proof (induction n rule: numberToString.induct)
  case (1 n)
  show ?case
  proof (cases "n < 10")
    case True
    then show ?thesis
      using digit_char_mem [of n] by (simp add: numberToString.simps [of n])
  next
    case False
    then show ?thesis
      using 1 digit_char_mem [of "n mod 10"] by (simp add: numberToString.simps [of n])
  qed
qed

lemma numberToString_value:
  "foldl (\<lambda>a c. 10 * a + (of_char c - 48)) 0 (numberToString n) = n"
proof (induction n rule: numberToString.induct)
  case (1 n)
  show ?case
  proof (cases "n < 10")
    case True
    then show ?thesis
      by (simp add: numberToString.simps [of n])
  next
    case False
    then show ?thesis
      using 1 by (simp add: numberToString.simps [of n])
  qed
qed

lemma numberToString_leading:
  assumes "hd (numberToString n) = CHR ''0''"
  shows "n = 0"
  using assms
proof (induction n rule: numberToString.induct)
  case (1 n)
  show ?case
  proof (cases "n < 10")
    case True
    then show ?thesis
      using 1(2) digit_char_zero [of n] by (simp add: numberToString.simps [of n])
  next
    case False
    then have "hd (numberToString (n div 10)) = CHR ''0''"
      using 1(2) by (simp add: numberToString.simps [of n] numberToString_nonempty)
    then have "n div 10 = 0"
      using 1(1) False by simp
    then show ?thesis
      using False by simp
  qed
qed

lemma numberToString_zero: "numberToString 0 = ''0''"
  by code_simp

lemma numberToString_leading_zero:
  assumes "hd (numberToString n) = CHR ''0''"
  shows "numberToString n = ''0''"
  using numberToString_leading [OF assms] numberToString_zero by simp

subsection \<open>Rosters\<close>

lemma rosterOf_buildPart:
  "\<exists>k. rosterOf uuidv4 st p = buildPart uuidv4 k (counts st p) (initialOf p) p"
  by (cases p) (auto simp add: rosterOf_def initialOf_def soprano_def alto_def tenor_def bass_def)


text \<open>
  Claim C9. A count text that reads as the non-negative integer \<open>n\<close> (the decimal text of
  \<open>n\<close> does) gives the part a roster of exactly \<open>n\<close> members, in creation order: the
  member at position \<open>i\<close> carries the \<open>i\<close>-th identifier generated for the part, belongs to
  the part and is labelled with the part's initial followed by the decimal numeral of \<open>i\<close>.
  That numeral is not empty, is made of the characters \<open>0\<close> to \<open>9\<close>, has the value \<open>i\<close>, starts
  with \<open>0\<close> only when it is the one character \<open>0\<close>, and is read back as \<open>i\<close> by \<open>parseInt\<close>.
\<close>

theorem roster_labels:
  assumes "parseInt (counts st p) = Some (int n)"
  shows "length (rosterOf uuidv4 st p) = n
         \<and> (\<forall>i < n. name (rosterOf uuidv4 st p ! i) = initialOf p # numberToString i
                  \<and> part (rosterOf uuidv4 st p ! i) = p)
         \<and> (\<exists>k. \<forall>i < n. id_m (rosterOf uuidv4 st p ! i) = uuidv4 (k + i))
         \<and> (\<forall>i. numberToString i \<noteq> []
                \<and> set (numberToString i) \<subseteq> set ''0123456789''
                \<and> foldl (\<lambda>a c. 10 * a + (of_char c - 48)) 0 (numberToString i) = i
                \<and> (hd (numberToString i) = CHR ''0'' \<longrightarrow> numberToString i = ''0'')
                \<and> parseInt (numberToString i) = Some (int i))
         \<and> initialOf Soprano = CHR ''S'' \<and> initialOf Alto = CHR ''A''
         \<and> initialOf Tenor = CHR ''T'' \<and> initialOf Bass = CHR ''B''"
proof -
  obtain k where k: "rosterOf uuidv4 st p = buildPart uuidv4 k (counts st p) (initialOf p) p"
    using rosterOf_buildPart by blast
  have len: "length (rosterOf uuidv4 st p) = n"
    using assms by (simp add: k length_buildPart orElse_def)
  have nth: "rosterOf uuidv4 st p ! i
      = \<lparr>id_m = uuidv4 (k + i), name = initialOf p # numberToString i, part = p\<rparr>"
    if "i < n" for i
    using that len by (simp add: k nth_buildPart)
  have ids: "\<exists>k. \<forall>i < n. id_m (rosterOf uuidv4 st p ! i) = uuidv4 (k + i)"
    using nth by auto
  have labels: "\<forall>i < n. name (rosterOf uuidv4 st p ! i) = initialOf p # numberToString i
      \<and> part (rosterOf uuidv4 st p ! i) = p"
    using nth by simp
  have numeral: "\<forall>i. numberToString i \<noteq> []
      \<and> set (numberToString i) \<subseteq> set ''0123456789''
      \<and> foldl (\<lambda>a c. 10 * a + (of_char c - 48)) 0 (numberToString i) = i
      \<and> (hd (numberToString i) = CHR ''0'' \<longrightarrow> numberToString i = ''0'')
      \<and> parseInt (numberToString i) = Some (int i)"
    using numberToString_nonempty numberToString_chars numberToString_value
      numberToString_leading_zero parseInt_numberToString
    by blast
  have initials: "initialOf Soprano = CHR ''S'' \<and> initialOf Alto = CHR ''A''
      \<and> initialOf Tenor = CHR ''T'' \<and> initialOf Bass = CHR ''B''"
    by (simp add: initialOf_def)
  show ?thesis
    using len labels ids numeral initials by blast
qed

lemma parseInt_12: "parseInt ''12'' = Some 12"
  by code_simp

lemma names_twelveSopranos:
  "map name (rosterOf uuidSeq (initialState\<lparr>counts := countsOf ''12'' ''0'' ''0'' ''0''\<rparr>) Soprano)
     = [''S0'', ''S1'', ''S2'', ''S3'', ''S4'', ''S5'', ''S6'', ''S7'', ''S8'', ''S9'', ''S10'',
        ''S11'']"
  by code_simp

theorem roster_labels_witness:
  "parseInt (counts (initialState\<lparr>counts := countsOf ''12'' ''0'' ''0'' ''0''\<rparr>) Soprano)
     = Some (int 12)
   \<and> length (rosterOf uuidSeq (initialState\<lparr>counts := countsOf ''12'' ''0'' ''0'' ''0''\<rparr>) Soprano)
     = 12
   \<and> map name (rosterOf uuidSeq (initialState\<lparr>counts := countsOf ''12'' ''0'' ''0'' ''0''\<rparr>) Soprano)
     = [''S0'', ''S1'', ''S2'', ''S3'', ''S4'', ''S5'', ''S6'', ''S7'', ''S8'', ''S9'', ''S10'',
        ''S11'']"
  using roster_labels
      [of "initialState\<lparr>counts := countsOf ''12'' ''0'' ''0'' ''0''\<rparr>" Soprano 12 uuidSeq]
    parseInt_12 names_twelveSopranos
  by (simp add: countsOf_def)

subsection \<open>What \<open>parseInt\<close> reads from a text that is not a numeral\<close>











end
